theory Spec2Isabelle
  imports Complex_Main
begin

section \<open>Numbers and strings of the host language\<close>

text \<open>
  The stopwatch is one React component, \<^verbatim>\<open>App\<close> in \<^verbatim>\<open>src/App.tsx\<close>. Its numbers
  are the numbers of JavaScript. The elapsed-time counter starts at 0 and grows by 10 per
  tick, so it, the split boundary and the lap durations are integers, modelled as \<open>int\<close>;
  the average lap is a quotient, modelled as an exact rational (\<open>rat\<close>): rounding of the
  quotient to a double is abstracted away. The value \<^verbatim>\<open>NaN\<close> that \<^verbatim>\<open>parseInt\<close> gives for
  a string with no leading digits is \<open>None\<close> in the type \<open>int option\<close>.
\<close>

subsection \<open>Remainder and floor\<close>

definition trunc :: "rat \<Rightarrow> int" where
  \<comment> \<open>rounding towards zero, the integer quotient of the remainder operator\<close>
  "trunc x = (if 0 \<le> x then \<lfloor>x\<rfloor> else \<lceil>x\<rceil>)"

definition js_rem :: "rat \<Rightarrow> rat \<Rightarrow> rat" where
  \<comment> \<open>\<^verbatim>\<open>x % y\<close> for a divisor \<open>y \<noteq> 0\<close>: the result has the sign of the dividend\<close>
  "js_rem x y = x - y * of_int (trunc (x / y))"

subsection \<open>\<^verbatim>\<open>toString\<close>, \<^verbatim>\<open>padStart\<close> and \<^verbatim>\<open>parseInt\<close>\<close>

definition digit_char :: "nat \<Rightarrow> char" where
  "digit_char d = char_of (48 + d)"

fun digits :: "nat \<Rightarrow> string" where
  "digits n = (if n < 10 then [digit_char n] else digits (n div 10) @ [digit_char (n mod 10)])"

declare digits.simps [simp del]

definition toString :: "int \<Rightarrow> string" where
  \<comment> \<open>\<^verbatim>\<open>Number.prototype.toString\<close> on an integer (below \<open>10\<^sup>2\<^sup>1\<close> in magnitude, where
      JavaScript prints all digits)\<close>
  "toString i = (if i < 0 then CHR ''-'' # digits (nat (- i)) else digits (nat i))"

definition padStart :: "nat \<Rightarrow> char \<Rightarrow> string \<Rightarrow> string" where
  \<comment> \<open>\<^verbatim>\<open>s.padStart(n, c)\<close> for a one-character filler\<close>
  "padStart n c s = replicate (n - length s) c @ s"

definition isWhiteSpace :: "char \<Rightarrow> bool" where
  "isWhiteSpace c = (c \<in> set [CHR 0x09, CHR 0x0A, CHR 0x0B, CHR 0x0C, CHR 0x0D, CHR '' ''])"

definition digit_val :: "char \<Rightarrow> nat option" where
  \<comment> \<open>the value of a character as a digit, up to base 16\<close>
  "digit_val c =
     (let k = of_char c :: nat in
      if 48 \<le> k \<and> k \<le> 57 then Some (k - 48)
      else if 97 \<le> k \<and> k \<le> 102 then Some (k - 87)
      else if 65 \<le> k \<and> k \<le> 70 then Some (k - 55)
      else None)"

definition isDigitOf :: "nat \<Rightarrow> char \<Rightarrow> bool" where
  "isDigitOf R c = (case digit_val c of None \<Rightarrow> False | Some v \<Rightarrow> v < R)"

definition digits_value :: "nat \<Rightarrow> string \<Rightarrow> nat" where
  "digits_value R z = foldl (\<lambda>a c. R * a + the (digit_val c)) 0 z"

definition parse_digits :: "nat \<Rightarrow> string \<Rightarrow> nat option" where
  \<comment> \<open>the longest prefix of digits of the radix; no digit at all is \<^verbatim>\<open>NaN\<close>\<close>
  "parse_digits R s =
     (let z = takeWhile (isDigitOf R) s in if z = [] then None else Some (digits_value R z))"

definition parse_unsigned :: "string \<Rightarrow> nat option" where
  \<comment> \<open>no radix argument: base 10, or base 16 after a \<^verbatim>\<open>0x\<close> prefix\<close>
  "parse_unsigned s =
     (case s of
        c # d # r \<Rightarrow>
          if c = CHR ''0'' \<and> (d = CHR ''x'' \<or> d = CHR ''X'') then parse_digits 16 r
          else parse_digits 10 s
      | _ \<Rightarrow> parse_digits 10 s)"

definition parseInt :: "string \<Rightarrow> int option" where
  \<comment> \<open>\<^verbatim>\<open>parseInt(s)\<close>: leading white space is skipped, then an optional sign, then digits;
      \<open>None\<close> is \<^verbatim>\<open>NaN\<close>\<close>
  "parseInt s =
     (let t = dropWhile isWhiteSpace s in
      case t of
        [] \<Rightarrow> None
      | c # r \<Rightarrow>
          if c = CHR ''-'' then map_option (\<lambda>n. - int n) (parse_unsigned r)
          else if c = CHR ''+'' then map_option int (parse_unsigned r)
          else map_option int (parse_unsigned t))"

section \<open>The time formatter\<close>

text \<open>
  \<^verbatim>\<open>formatTime(ms)\<close> computes four integers with \<^verbatim>\<open>Math.floor\<close> and renders each with
  \<^verbatim>\<open>toString().padStart(2, '0')\<close>. The four integers are \<open>time_fields\<close>; the strings
  are the record \<open>formatTime\<close> returns. That object has the three string fields of the
  interface \<^verbatim>\<open>Target\<close> and a fourth, so its record extends \<open>Target\<close>.
\<close>

record Target =
  hours :: string
  minutes :: string
  seconds :: string

record Formatted = Target +
  milliseconds :: string

record Fields =
  f_hours :: int
  f_minutes :: int
  f_seconds :: int
  f_milliseconds :: int

definition time_fields :: "rat \<Rightarrow> Fields" where
  "time_fields ms =
     \<lparr> f_hours = \<lfloor>ms / 3600000\<rfloor>,
       f_minutes = \<lfloor>js_rem ms 3600000 / 60000\<rfloor>,
       f_seconds = \<lfloor>js_rem ms 60000 / 1000\<rfloor>,
       f_milliseconds = \<lfloor>js_rem ms 1000 / 10\<rfloor> \<rparr>"

definition formatTime :: "rat \<Rightarrow> Formatted" where
  "formatTime ms =
     (let f = time_fields ms in
      \<lparr> hours = padStart 2 (CHR ''0'') (toString (f_hours f)),
        minutes = padStart 2 (CHR ''0'') (toString (f_minutes f)),
        seconds = padStart 2 (CHR ''0'') (toString (f_seconds f)),
        milliseconds = padStart 2 (CHR ''0'') (toString (f_milliseconds f)) \<rparr>)"

definition fields_ms :: "Fields \<Rightarrow> int" where
  \<comment> \<open>the milliseconds that the four fields stand for\<close>
  "fields_ms f =
     f_hours f * 3600000 + f_minutes f * 60000 + f_seconds f * 1000 + f_milliseconds f * 10"

section \<open>Lap statistics\<close>

record SplitTime =
  id_split :: int
  time_split :: string
  duration :: int
  lap :: string

record Stats =
  average :: Formatted
  best :: Formatted
  worst :: Formatted

fun Math_min :: "int list \<Rightarrow> int" where
  \<comment> \<open>\<^verbatim>\<open>Math.min(...xs)\<close> of at least one argument; \<^verbatim>\<open>calculateStats\<close> has returned
      before the call when there is none\<close>
  "Math_min (x # xs) = foldl min x xs"

fun Math_max :: "int list \<Rightarrow> int" where
  "Math_max (x # xs) = foldl max x xs"

definition avgLap :: "int list \<Rightarrow> rat" where
  \<comment> \<open>\<^verbatim>\<open>lapTimes.reduce((a, b) => a + b, 0) / lapTimes.length\<close>\<close>
  "avgLap lapTimes = of_int (foldl (+) 0 lapTimes) / of_nat (length lapTimes)"

definition calculateStats :: "SplitTime list \<Rightarrow> Stats option" where
  "calculateStats splits =
     (if length splits = 0 then None
      else
        let lapTimes = map duration splits;
            bestLap = Math_min lapTimes;
            worstLap = Math_max lapTimes
        in Some \<lparr> average = formatTime (avgLap lapTimes),
                  best = formatTime (of_int bestLap),
                  worst = formatTime (of_int worstLap) \<rparr>)"

section \<open>The target\<close>

text \<open>
  Arithmetic and comparison on numbers that may be \<^verbatim>\<open>NaN\<close>: an operation with a
  \<^verbatim>\<open>NaN\<close> operand is \<^verbatim>\<open>NaN\<close>, a comparison with one is false.
\<close>

definition times_n :: "int option \<Rightarrow> int option \<Rightarrow> int option" where
  "times_n a b = (case a of None \<Rightarrow> None | Some x \<Rightarrow> (case b of None \<Rightarrow> None | Some y \<Rightarrow> Some (x * y)))"

definition plus_n :: "int option \<Rightarrow> int option \<Rightarrow> int option" where
  "plus_n a b = (case a of None \<Rightarrow> None | Some x \<Rightarrow> (case b of None \<Rightarrow> None | Some y \<Rightarrow> Some (x + y)))"

definition less_n :: "int option \<Rightarrow> int option \<Rightarrow> bool" where
  "less_n a b = (case a of None \<Rightarrow> False | Some x \<Rightarrow> (case b of None \<Rightarrow> False | Some y \<Rightarrow> x < y))"

definition less_eq_n :: "int option \<Rightarrow> int option \<Rightarrow> bool" where
  "less_eq_n a b = (case a of None \<Rightarrow> False | Some x \<Rightarrow> (case b of None \<Rightarrow> False | Some y \<Rightarrow> x \<le> y))"

definition targetMs :: "Target \<Rightarrow> int option" where
  "targetMs target =
     plus_n (plus_n (times_n (parseInt (hours target)) (Some 3600000))
                    (times_n (parseInt (minutes target)) (Some 60000)))
            (times_n (parseInt (seconds target)) (Some 1000))"

text \<open>
  The specification's reading of the threshold, written from its words for comparison with
  \<open>targetMs\<close>: a field that does not parse counts as 0.
\<close>

definition field_or_zero :: "string \<Rightarrow> int" where
  "field_or_zero f = (case parseInt f of None \<Rightarrow> 0 | Some v \<Rightarrow> v)"

definition targetMs_spec :: "Target \<Rightarrow> int" where
  "targetMs_spec target =
     field_or_zero (hours target) * 3600000 + field_or_zero (minutes target) * 60000
       + field_or_zero (seconds target) * 1000"

definition alertCondition :: "int option \<Rightarrow> int \<Rightarrow> int \<Rightarrow> bool" where
  \<comment> \<open>\<^verbatim>\<open>targetMs > 0 && newTime >= targetMs && prevTime < targetMs\<close>\<close>
  "alertCondition tm prevTime newTime =
     (less_n (Some 0) tm \<and> less_eq_n tm (Some newTime) \<and> less_n (Some prevTime) tm)"

section \<open>The component's state and its handlers\<close>

text \<open>
  The state of the component: the state variables \<^verbatim>\<open>time\<close>, \<^verbatim>\<open>isRunning\<close> and
  \<^verbatim>\<open>splits\<close>, and the ref \<^verbatim>\<open>lastSplitTime\<close>. A handler is a closure made by one
  render of the component: it reads the constants \<^verbatim>\<open>time\<close> and \<^verbatim>\<open>isRunning\<close> of
  that render (\<open>closure\<close>), while a ref and the argument of a functional update
  (\<^verbatim>\<open>setSplits(prevSplits => ...)\<close>, \<^verbatim>\<open>setTime(prevTime => ...)\<close>) are current.
  \<^verbatim>\<open>Date.now()\<close>, the reading of the wall clock, is the argument \<open>now\<close>.
\<close>

record state =
  time :: int
  isRunning :: bool
  splits :: "SplitTime list"
  lastSplitTime :: int

record closure =
  c_time :: int
  c_isRunning :: bool

definition render :: "state \<Rightarrow> closure" where
  "render s = \<lparr> c_time = time s, c_isRunning = isRunning s \<rparr>"

definition label :: "Formatted \<Rightarrow> string" where
  \<comment> \<open>the template \<^verbatim>\<open>`${hours}:${minutes}:${seconds}.${milliseconds}`\<close>\<close>
  "label f = hours f @ '':'' @ minutes f @ '':'' @ seconds f @ ''.'' @ milliseconds f"

definition tick :: "Target \<Rightarrow> state \<Rightarrow> state \<times> bool" where
  \<comment> \<open>the callback of the interval; the flag says whether the audio was played\<close>
  "tick target s =
     (let prevTime = time s;
          newTime = prevTime + 10
      in (s\<lparr>time := newTime\<rparr>, alertCondition (targetMs target) prevTime newTime))"

definition handleStartStop :: "closure \<Rightarrow> state \<Rightarrow> state" where
  "handleStartStop c s = s\<lparr>isRunning := \<not> c_isRunning c\<rparr>"

definition handleReset :: "state \<Rightarrow> state" where
  "handleReset s = s\<lparr>isRunning := False, time := 0, splits := [], lastSplitTime := 0\<rparr>"

definition handleSplit :: "closure \<Rightarrow> int \<Rightarrow> state \<Rightarrow> state" where
  "handleSplit c now s =
     (if c_isRunning c then
        let currentSplit = c_time c - lastSplitTime s;
            formattedTime = formatTime (of_int (c_time c));
            formattedSplit = formatTime (of_int currentSplit);
            timeString = label formattedTime;
            lapString = label formattedSplit
        in s\<lparr>splits := splits s @
                 [\<lparr> id_split = now, time_split = timeString,
                    duration = currentSplit, lap = lapString \<rparr>],
             lastSplitTime := c_time c\<rparr>
      else s)"

section \<open>Events\<close>

text \<open>
  The buttons call the handlers of the latest render. The \<^verbatim>\<open>keydown\<close> listener is
  registered by an effect whose dependency list is \<^verbatim>\<open>[isRunning]\<close>: the listener, and the
  handlers it calls, are those of the last render in which \<^verbatim>\<open>isRunning\<close> changed (or of
  the first render). The interval exists only while \<^verbatim>\<open>isRunning\<close> holds. The field
  \<open>plays\<close> counts the calls of \<^verbatim>\<open>audioRef.current?.play()\<close>.
\<close>

record app =
  cur :: state
  keydown :: closure
  plays :: nat

datatype event =
    Tick
  | ClickStartStop | ClickSplit int | ClickReset
  | KeySpace | KeyS int | KeyR

definition commit :: "app \<Rightarrow> state \<Rightarrow> app" where
  \<comment> \<open>the render after a state change; the effect runs again if \<^verbatim>\<open>isRunning\<close> changed\<close>
  "commit a s = a\<lparr>cur := s,
                   keydown := (if isRunning s = isRunning (cur a) then keydown a else render s)\<rparr>"

fun step :: "Target \<Rightarrow> app \<Rightarrow> event \<Rightarrow> app" where
  "step target a Tick =
     (if isRunning (cur a) then
        (case tick target (cur a) of
           (s, played) \<Rightarrow> (commit a s)\<lparr>plays := plays a + (if played then 1 else 0)\<rparr>)
      else a)"
| "step target a ClickStartStop = commit a (handleStartStop (render (cur a)) (cur a))"
| "step target a (ClickSplit now) = commit a (handleSplit (render (cur a)) now (cur a))"
| "step target a ClickReset = commit a (handleReset (cur a))"
| "step target a KeySpace = commit a (handleStartStop (keydown a) (cur a))"
| "step target a (KeyS now) = commit a (handleSplit (keydown a) now (cur a))"
| "step target a KeyR = commit a (handleReset (cur a))"

definition exec :: "Target \<Rightarrow> app \<Rightarrow> event list \<Rightarrow> app" where
  "exec target a evs = foldl (step target) a evs"

definition mounted :: app where
  \<comment> \<open>after the first render: \<^verbatim>\<open>useState(0)\<close>, \<^verbatim>\<open>useState(false)\<close>, \<^verbatim>\<open>useState([])\<close>,
      \<^verbatim>\<open>useRef(0)\<close>\<close>
  "mounted =
     (let s = \<lparr> time = 0, isRunning = False, splits = [], lastSplitTime = 0 \<rparr>
      in \<lparr> cur = s, keydown = render s, plays = 0 \<rparr>)"

definition is_reset :: "event \<Rightarrow> bool" where
  "is_reset e = (e = ClickReset \<or> e = KeyR)"

definition is_key_split :: "event \<Rightarrow> bool" where
  \<comment> \<open>a split asked for with the key \<^verbatim>\<open>S\<close>\<close>
  "is_key_split e = (case e of KeyS now \<Rightarrow> True | _ \<Rightarrow> False)"

definition readings :: "event list \<Rightarrow> int list" where
  \<comment> \<open>the values of \<^verbatim>\<open>Date.now()\<close> at the split events of a run, in order\<close>
  "readings evs = concat (map (\<lambda>e. case e of ClickSplit now \<Rightarrow> [now] | KeyS now \<Rightarrow> [now] | _ \<Rightarrow> []) evs)"

section \<open>Facts about the formatter\<close>

lemma floor_divide_rat_eq_div:
  fixes x :: rat and k :: int
  assumes k: "0 < k"
  shows "\<lfloor>x / of_int k\<rfloor> = \<lfloor>x\<rfloor> div k"
proof (rule floor_unique)
  let ?n = "\<lfloor>x\<rfloor>"
  have kpos: "(0::rat) < of_int k" using k by simp
  have "?n div k * k = ?n - ?n mod k" by (simp add: minus_mod_eq_div_mult)
  moreover have "0 \<le> ?n mod k" using k by simp
  ultimately have "?n div k * k \<le> ?n" by simp
  then have "(of_int (?n div k * k) :: rat) \<le> of_int ?n" by (simp only: of_int_le_iff)
  also have "\<dots> \<le> x" by simp
  finally have "of_int (?n div k) * of_int k \<le> x" by simp
  then show "of_int (?n div k) \<le> x / of_int k"
    using kpos by (simp add: pos_le_divide_eq)
  have "?n + 1 \<le> (?n div k + 1) * k"
  proof -
    have "?n mod k < k" using k by simp
    then have "?n mod k + 1 \<le> k" by simp
    moreover have "?n div k * k = ?n - ?n mod k" by (simp add: minus_mod_eq_div_mult)
    ultimately show ?thesis by (simp add: distrib_right)
  qed
  then have "(of_int (?n + 1) :: rat) \<le> of_int ((?n div k + 1) * k)" by (simp only: of_int_le_iff)
  moreover have "x < of_int (?n + 1)" by linarith
  ultimately have "x < (of_int (?n div k) + 1) * of_int k" by simp
  then show "x / of_int k < of_int (?n div k) + 1"
    using kpos by (simp add: pos_divide_less_eq)
qed

lemma js_rem_nonneg:
  fixes x :: rat and k :: int
  assumes "0 \<le> x" "0 < k"
  shows "js_rem x (of_int k) = x - of_int (k * (\<lfloor>x\<rfloor> div k))"
proof -
  have "0 \<le> x / of_int k" using assms by simp
  then show ?thesis
    using assms(2) by (simp add: js_rem_def trunc_def floor_divide_rat_eq_div)
qed

lemma floor_js_rem_div:
  fixes x :: rat and k j :: int
  assumes "0 \<le> x" "0 < k" "0 < j"
  shows "\<lfloor>js_rem x (of_int k) / of_int j\<rfloor> = (\<lfloor>x\<rfloor> mod k) div j"
proof -
  have "\<lfloor>js_rem x (of_int k) / of_int j\<rfloor> = \<lfloor>x - of_int (k * (\<lfloor>x\<rfloor> div k))\<rfloor> div j"
    using assms by (simp only: js_rem_nonneg floor_divide_rat_eq_div)
  also have "\<lfloor>x - of_int (k * (\<lfloor>x\<rfloor> div k))\<rfloor> = \<lfloor>x\<rfloor> - k * (\<lfloor>x\<rfloor> div k)"
    by (rule floor_diff_of_int)
  also have "\<dots> = \<lfloor>x\<rfloor> mod k"
    by (simp add: minus_mult_div_eq_mod)
  finally show ?thesis .
qed

lemma time_fields_nonneg:
  assumes "0 \<le> ms"
  shows "time_fields ms =
     \<lparr> f_hours = \<lfloor>ms\<rfloor> div 3600000,
       f_minutes = (\<lfloor>ms\<rfloor> mod 3600000) div 60000,
       f_seconds = (\<lfloor>ms\<rfloor> mod 60000) div 1000,
       f_milliseconds = (\<lfloor>ms\<rfloor> mod 1000) div 10 \<rparr>"
proof -
  have h: "\<lfloor>ms / 3600000\<rfloor> = \<lfloor>ms\<rfloor> div 3600000"
    using floor_divide_rat_eq_div [of 3600000 ms] by simp
  have m: "\<lfloor>js_rem ms 3600000 / 60000\<rfloor> = (\<lfloor>ms\<rfloor> mod 3600000) div 60000"
    using floor_js_rem_div [OF assms, of 3600000 60000] by simp
  have s: "\<lfloor>js_rem ms 60000 / 1000\<rfloor> = (\<lfloor>ms\<rfloor> mod 60000) div 1000"
    using floor_js_rem_div [OF assms, of 60000 1000] by simp
  have c: "\<lfloor>js_rem ms 1000 / 10\<rfloor> = (\<lfloor>ms\<rfloor> mod 1000) div 10"
    using floor_js_rem_div [OF assms, of 1000 10] by simp
  show ?thesis by (simp only: time_fields_def h m s c)
qed

lemma fields_sum:
  fixes n :: int
  shows "n div 3600000 * 3600000 + (n mod 3600000) div 60000 * 60000
       + (n mod 60000) div 1000 * 1000 + (n mod 1000) div 10 * 10 = n - n mod 10"
proof -
  have a: "n mod 3600000 mod 60000 = n mod 60000" by (simp add: mod_mod_cancel)
  have b: "n mod 60000 mod 1000 = n mod 1000" by (simp add: mod_mod_cancel)
  have c: "n mod 1000 mod 10 = n mod 10" by (simp add: mod_mod_cancel)
  have 1: "n div 3600000 * 3600000 = n - n mod 3600000" by (simp add: minus_mod_eq_div_mult)
  have 2: "(n mod 3600000) div 60000 * 60000 = n mod 3600000 - n mod 60000"
    using minus_mod_eq_div_mult [of "n mod 3600000" 60000] a by simp
  have 3: "(n mod 60000) div 1000 * 1000 = n mod 60000 - n mod 1000"
    using minus_mod_eq_div_mult [of "n mod 60000" 1000] b by simp
  have 4: "(n mod 1000) div 10 * 10 = n mod 1000 - n mod 10"
    using minus_mod_eq_div_mult [of "n mod 1000" 10] c by simp
  show ?thesis by (simp only: 1 2 3 4)
qed

lemma digit_val_digit_char: "d < 10 \<Longrightarrow> digit_val (digit_char d) = Some d"
  by (simp add: digit_val_def digit_char_def Let_def)

lemma isDigitOf_digit_char: "d < 10 \<Longrightarrow> isDigitOf 10 (digit_char d)"
  by (simp add: isDigitOf_def digit_val_digit_char)

lemma digits_all_decimal: "list_all (isDigitOf 10) (digits n)"
proof (induction n rule: digits.induct)
  case (1 n)
  show ?case
  proof (cases "n < 10")
    case True
    then show ?thesis by (subst digits.simps) (simp add: isDigitOf_digit_char)
  next
    case False
    with 1 show ?thesis by (subst digits.simps) (simp add: isDigitOf_digit_char)
  qed
qed

lemma digits_nonempty: "digits n \<noteq> []"
  by (subst digits.simps) simp

lemma digits_value_snoc: "digits_value R (z @ [c]) = R * digits_value R z + the (digit_val c)"
  by (simp add: digits_value_def)

lemma digits_value_digits: "digits_value 10 (digits n) = n"
proof (induction n rule: digits.induct)
  case (1 n)
  show ?case
  proof (cases "n < 10")
    case True
    then show ?thesis
      by (subst digits.simps) (simp add: digits_value_def digit_val_digit_char)
  next
    case False
    with 1 have "digits_value 10 (digits (n div 10)) = n div 10" by simp
    with False show ?thesis
      by (subst digits.simps) (simp add: digits_value_snoc digit_val_digit_char)
  qed
qed

lemma digits_value_zeros: "digits_value 10 (replicate k (CHR ''0'') @ z) = digits_value 10 z"
proof (induction k)
  case 0
  show ?case by simp
next
  case (Suc k)
  have z: "digit_val (CHR ''0'') = Some 0" by (simp add: digit_val_def)
  have "digits_value 10 (CHR ''0'' # w) = digits_value 10 w" for w
    by (simp add: digits_value_def z)
  with Suc show ?case by simp
qed

lemma isDigitOf_10_facts:
  assumes "isDigitOf 10 c"
  shows "\<not> isWhiteSpace c" "c \<noteq> CHR ''-''" "c \<noteq> CHR ''+''" "c \<noteq> CHR ''x''" "c \<noteq> CHR ''X''"
  using assms
  by (auto simp add: isDigitOf_def digit_val_def isWhiteSpace_def Let_def split: if_splits)

lemma parse_digits_all:
  assumes "list_all (isDigitOf R) z" "z \<noteq> []"
  shows "parse_digits R z = Some (digits_value R z)"
proof -
  have "\<forall>c\<in>set z. isDigitOf R c"
    using assms(1) by (simp add: list_all_iff)
  then have tw: "takeWhile (isDigitOf R) z = z"
    by (simp only: takeWhile_eq_all_conv)
  show ?thesis
    unfolding parse_digits_def Let_def tw using assms(2) by simp
qed

lemma parse_unsigned_decimal:
  assumes "list_all (isDigitOf 10) z" "z \<noteq> []"
  shows "parse_unsigned z = Some (digits_value 10 z)"
proof (cases z)
  case Nil
  with assms(2) show ?thesis by simp
next
  case (Cons c r)
  show ?thesis
  proof (cases r)
    case Nil
    with Cons assms show ?thesis by (simp add: parse_unsigned_def parse_digits_all)
  next
    case (Cons d r')
    with \<open>z = c # r\<close> assms(1) have "isDigitOf 10 d" by simp
    then have "d \<noteq> CHR ''x''" "d \<noteq> CHR ''X''" by (rule isDigitOf_10_facts)+
    with Cons \<open>z = c # r\<close> show ?thesis
      using parse_digits_all [OF assms] by (simp add: parse_unsigned_def)
  qed
qed

lemma parseInt_decimal:
  assumes "list_all (isDigitOf 10) z" "z \<noteq> []"
  shows "parseInt z = Some (int (digits_value 10 z))"
proof -
  from assms obtain c r where z: "z = c # r" by (cases z) auto
  with assms(1) have c: "isDigitOf 10 c" by simp
  have ws: "dropWhile isWhiteSpace z = z"
    using z isDigitOf_10_facts(1) [OF c] by simp
  have "parseInt z = map_option int (parse_unsigned z)"
    unfolding parseInt_def ws Let_def
    using z isDigitOf_10_facts(2,3) [OF c] by simp
  then show ?thesis by (simp add: parse_unsigned_decimal [OF assms])
qed

lemma padded_all_decimal: "list_all (isDigitOf 10) (padStart n (CHR ''0'') (digits k))"
proof -
  have "isDigitOf 10 (CHR ''0'')" by (simp add: isDigitOf_def digit_val_def)
  then have "list_all (isDigitOf 10) (replicate m (CHR ''0''))" for m
    by (induction m) simp_all
  then show ?thesis
    by (simp add: padStart_def digits_all_decimal)
qed

lemma parseInt_padStart_toString:
  assumes "0 \<le> i"
  shows "parseInt (padStart n (CHR ''0'') (toString i)) = Some i"
proof -
  have t: "toString i = digits (nat i)" using assms by (simp add: toString_def)
  have ne: "padStart n (CHR ''0'') (digits (nat i)) \<noteq> []"
    by (simp add: padStart_def digits_nonempty)
  have "parseInt (padStart n (CHR ''0'') (digits (nat i)))
        = Some (int (digits_value 10 (padStart n (CHR ''0'') (digits (nat i)))))"
    by (rule parseInt_decimal [OF padded_all_decimal ne])
  also have "digits_value 10 (padStart n (CHR ''0'') (digits (nat i))) = nat i"
    by (simp add: padStart_def digits_value_zeros digits_value_digits)
  finally show ?thesis using assms by (simp add: t)
qed

lemma length_padStart: "n \<le> length (padStart n c s)"
  by (simp add: padStart_def)

lemma time_fields_ranges:
  assumes "0 \<le> ms"
  shows "0 \<le> f_hours (time_fields ms)"
    and "0 \<le> f_minutes (time_fields ms)" and "f_minutes (time_fields ms) \<le> 59"
    and "0 \<le> f_seconds (time_fields ms)" and "f_seconds (time_fields ms) \<le> 59"
    and "0 \<le> f_milliseconds (time_fields ms)" and "f_milliseconds (time_fields ms) \<le> 99"
proof -
  have n: "0 \<le> \<lfloor>ms\<rfloor>" using assms by simp
  show "0 \<le> f_hours (time_fields ms)"
    using n by (simp add: time_fields_nonneg [OF assms] pos_imp_zdiv_nonneg_iff)
  show "0 \<le> f_minutes (time_fields ms)"
    by (simp add: time_fields_nonneg [OF assms] pos_imp_zdiv_nonneg_iff)
  show "0 \<le> f_seconds (time_fields ms)"
    by (simp add: time_fields_nonneg [OF assms] pos_imp_zdiv_nonneg_iff)
  show "0 \<le> f_milliseconds (time_fields ms)"
    by (simp add: time_fields_nonneg [OF assms] pos_imp_zdiv_nonneg_iff)
  have "\<lfloor>ms\<rfloor> mod 3600000 < 60 * 60000" by simp
  then have "\<lfloor>ms\<rfloor> mod 3600000 div 60000 < 60" by simp
  then show "f_minutes (time_fields ms) \<le> 59"
    by (simp add: time_fields_nonneg [OF assms])
  have "\<lfloor>ms\<rfloor> mod 60000 < 60 * 1000" by simp
  then have "\<lfloor>ms\<rfloor> mod 60000 div 1000 < 60" by simp
  then show "f_seconds (time_fields ms) \<le> 59"
    by (simp add: time_fields_nonneg [OF assms])
  have "\<lfloor>ms\<rfloor> mod 1000 < 100 * 10" by simp
  then have "\<lfloor>ms\<rfloor> mod 1000 div 10 < 100" by simp
  then show "f_milliseconds (time_fields ms) \<le> 99"
    by (simp add: time_fields_nonneg [OF assms])
qed

lemma fields_ms_time_fields:
  assumes "0 \<le> ms"
  shows "fields_ms (time_fields ms) = \<lfloor>ms\<rfloor> - \<lfloor>ms\<rfloor> mod 10"
  by (simp only: fields_ms_def time_fields_nonneg [OF assms] Fields.simps fields_sum)

lemma fields_ms_bounds:
  assumes "0 \<le> ms"
  shows "of_int (fields_ms (time_fields ms)) \<le> ms" and "ms < of_int (fields_ms (time_fields ms)) + 10"
proof -
  let ?n = "\<lfloor>ms\<rfloor>"
  have m: "0 \<le> ?n mod 10" "?n mod 10 < 10" by simp_all
  have "fields_ms (time_fields ms) \<le> ?n"
    using m by (simp add: fields_ms_time_fields [OF assms])
  then have "(of_int (fields_ms (time_fields ms)) :: rat) \<le> of_int ?n"
    by (simp only: of_int_le_iff)
  also have "\<dots> \<le> ms" by simp
  finally show "of_int (fields_ms (time_fields ms)) \<le> ms" .
  have "?n + 1 \<le> fields_ms (time_fields ms) + 10"
    using m by (simp add: fields_ms_time_fields [OF assms])
  then have "(of_int (?n + 1) :: rat) \<le> of_int (fields_ms (time_fields ms) + 10)"
    by (simp only: of_int_le_iff)
  moreover have "ms < of_int (?n + 1)" by linarith
  ultimately show "ms < of_int (fields_ms (time_fields ms)) + 10" by simp
qed

lemma formatTime_strings:
  "hours (formatTime ms) = padStart 2 (CHR ''0'') (toString (f_hours (time_fields ms)))"
  "minutes (formatTime ms) = padStart 2 (CHR ''0'') (toString (f_minutes (time_fields ms)))"
  "seconds (formatTime ms) = padStart 2 (CHR ''0'') (toString (f_seconds (time_fields ms)))"
  "milliseconds (formatTime ms) = padStart 2 (CHR ''0'') (toString (f_milliseconds (time_fields ms)))"
  by (simp_all add: formatTime_def Let_def)

lemma formatTime_lengths:
  "2 \<le> length (hours (formatTime ms))" "2 \<le> length (minutes (formatTime ms))"
  "2 \<le> length (seconds (formatTime ms))" "2 \<le> length (milliseconds (formatTime ms))"
  by (simp_all only: formatTime_strings length_padStart)

lemma formatTime_parse:
  assumes "0 \<le> ms"
  shows "parseInt (hours (formatTime ms)) = Some (f_hours (time_fields ms))"
    and "parseInt (minutes (formatTime ms)) = Some (f_minutes (time_fields ms))"
    and "parseInt (seconds (formatTime ms)) = Some (f_seconds (time_fields ms))"
    and "parseInt (milliseconds (formatTime ms)) = Some (f_milliseconds (time_fields ms))"
  using time_fields_ranges [OF assms]
  by (simp_all only: formatTime_strings parseInt_padStart_toString)

text \<open>
  Claim C3. For every integer count of milliseconds \<open>e \<ge> 0\<close>, the four fields that
  \<open>formatTime\<close> computes stand for a number of milliseconds between \<open>e - 9\<close> and \<open>e\<close>;
  minutes and seconds lie in 0..59 and the hundredths in 0..99; the hundredths are
  \<open>(e mod 1000) div 10\<close>, truncated and not rounded; and each field is rendered as a string
  of at least two characters that reads back, as a decimal number, as the field.
\<close>

theorem formatTime_integer_input:
  fixes e :: int
  assumes "0 \<le> e"
  shows "fields_ms (time_fields (of_int e)) \<le> e
       \<and> e < fields_ms (time_fields (of_int e)) + 10
       \<and> f_minutes (time_fields (of_int e)) \<in> {0..59}
       \<and> f_seconds (time_fields (of_int e)) \<in> {0..59}
       \<and> f_milliseconds (time_fields (of_int e)) \<in> {0..99}
       \<and> f_milliseconds (time_fields (of_int e)) = (e mod 1000) div 10
       \<and> parseInt (hours (formatTime (of_int e))) = Some (f_hours (time_fields (of_int e)))
       \<and> parseInt (minutes (formatTime (of_int e))) = Some (f_minutes (time_fields (of_int e)))
       \<and> parseInt (seconds (formatTime (of_int e))) = Some (f_seconds (time_fields (of_int e)))
       \<and> parseInt (milliseconds (formatTime (of_int e))) = Some (f_milliseconds (time_fields (of_int e)))
       \<and> 2 \<le> length (hours (formatTime (of_int e)))
       \<and> 2 \<le> length (minutes (formatTime (of_int e)))
       \<and> 2 \<le> length (seconds (formatTime (of_int e)))
       \<and> 2 \<le> length (milliseconds (formatTime (of_int e)))"
proof -
  have ms: "(0::rat) \<le> of_int e" using assms by simp
  have lo: "fields_ms (time_fields (of_int e)) \<le> e"
    using fields_ms_bounds(1) [OF ms] by (simp only: of_int_le_iff)
  have "(of_int e :: rat) < of_int (fields_ms (time_fields (of_int e)) + 10)"
    using fields_ms_bounds(2) [OF ms] by simp
  then have hi: "e < fields_ms (time_fields (of_int e)) + 10"
    by (simp only: of_int_less_iff)
  have tr: "f_milliseconds (time_fields (of_int e)) = (e mod 1000) div 10"
    by (simp add: time_fields_nonneg [OF ms])
  note r = time_fields_ranges [OF ms]
  have rng: "f_minutes (time_fields (of_int e)) \<in> {0..59}"
    "f_seconds (time_fields (of_int e)) \<in> {0..59}"
    "f_milliseconds (time_fields (of_int e)) \<in> {0..99}"
    using r by simp_all
  show ?thesis
    using lo hi tr rng formatTime_parse [OF ms] formatTime_lengths [of "of_int e"]
    by (intro conjI)
qed

theorem formatTime_integer_input_witness:
  "fields_ms (time_fields 3723456) = 3723450
   \<and> formatTime 3723456 = \<lparr> hours = ''01'', minutes = ''02'', seconds = ''03'', milliseconds = ''45'' \<rparr>
   \<and> parseInt ''45'' = Some (f_milliseconds (time_fields 3723456))"
proof -
  have h: "(0::int) \<le> 3723456" by simp
  have f: "formatTime 3723456 = \<lparr> hours = ''01'', minutes = ''02'', seconds = ''03'', milliseconds = ''45'' \<rparr>"
    by code_simp
  have s: "fields_ms (time_fields 3723456) = 3723450" by code_simp
  from formatTime_integer_input [OF h] f s show ?thesis by simp
qed

section \<open>Facts about the statistics\<close>

lemma foldl_plus_sum_list: "foldl (+) a xs = a + sum_list (xs :: int list)"
  by (induction xs arbitrary: a) simp_all

lemma foldl_min_Min: "foldl min x xs = Min (set (x # xs :: int list))"
proof (induction xs arbitrary: x)
  case Nil
  show ?case by simp
next
  case (Cons y ys)
  have "foldl min x (y # ys) = Min (set (min x y # ys))" by (simp add: Cons)
  also have "\<dots> = Min (set (x # y # ys))"
    by (cases "ys = []") (simp_all add: min.assoc)
  finally show ?case .
qed

lemma foldl_max_Max: "foldl max x xs = Max (set (x # xs :: int list))"
proof (induction xs arbitrary: x)
  case Nil
  show ?case by simp
next
  case (Cons y ys)
  have "foldl max x (y # ys) = Max (set (max x y # ys))" by (simp add: Cons)
  also have "\<dots> = Max (set (x # y # ys))"
    by (cases "ys = []") (simp_all add: max.assoc)
  finally show ?case .
qed

lemma Math_min_Min: "xs \<noteq> [] \<Longrightarrow> Math_min xs = Min (set xs)"
  by (cases xs) (simp_all only: Math_min.simps foldl_min_Min, simp)

lemma Math_max_Max: "xs \<noteq> [] \<Longrightarrow> Math_max xs = Max (set xs)"
  by (cases xs) (simp_all only: Math_max.simps foldl_max_Max, simp)

lemma avgLap_mean: "avgLap xs = of_int (sum_list xs) / of_nat (length xs)"
  by (simp add: avgLap_def foldl_plus_sum_list)

lemma calculateStats_nonempty:
  assumes "ss \<noteq> []"
  shows "calculateStats ss =
     Some \<lparr> average = formatTime (of_int (sum_list (map duration ss)) / of_nat (length ss)),
            best = formatTime (of_int (Min (duration ` set ss))),
            worst = formatTime (of_int (Max (duration ` set ss))) \<rparr>"
proof -
  have ne: "map duration ss \<noteq> []" using assms by simp
  show ?thesis
    using assms
    by (simp add: calculateStats_def Let_def avgLap_mean Math_min_Min [OF ne] Math_max_Max [OF ne])
qed

text \<open>
  Claim C7. The statistics are a function of the split sequence alone: none for the empty
  sequence; for a non-empty one the formatted arithmetic mean, minimum and maximum of the
  lap durations; for the lap durations 100, 300, 200 the formatted values of 200, 100
  and 300.
\<close>

theorem calculateStats_mean_min_max:
  "calculateStats [] = None
   \<and> (ss \<noteq> [] \<longrightarrow>
        calculateStats ss =
          Some \<lparr> average = formatTime (of_int (sum_list (map duration ss)) / of_nat (length ss)),
                 best = formatTime (of_int (Min (duration ` set ss))),
                 worst = formatTime (of_int (Max (duration ` set ss))) \<rparr>)
   \<and> (map duration ss = [100, 300, 200] \<longrightarrow>
        calculateStats ss =
          Some \<lparr> average = formatTime 200, best = formatTime 100, worst = formatTime 300 \<rparr>)"
proof (intro conjI impI)
  show "calculateStats [] = None" by (simp add: calculateStats_def)
next
  assume "ss \<noteq> []"
  then show "calculateStats ss =
          Some \<lparr> average = formatTime (of_int (sum_list (map duration ss)) / of_nat (length ss)),
                 best = formatTime (of_int (Min (duration ` set ss))),
                 worst = formatTime (of_int (Max (duration ` set ss))) \<rparr>"
    by (rule calculateStats_nonempty)
next
  assume d: "map duration ss = [100, 300, 200]"
  then have ne: "ss \<noteq> []" by auto
  have len: "length ss = 3" using arg_cong [OF d, of length] by simp
  have img: "duration ` set ss = {100, 300, 200}"
    using arg_cong [OF d, of set] by simp
  show "calculateStats ss =
          Some \<lparr> average = formatTime 200, best = formatTime 100, worst = formatTime 300 \<rparr>"
    by (simp add: calculateStats_nonempty [OF ne] d len img)
qed

theorem calculateStats_mean_min_max_witness:
  "[\<lparr> id_split = 1, time_split = ''00:00:00.10'', duration = 100, lap = ''00:00:00.10'' \<rparr>,
    \<lparr> id_split = 2, time_split = ''00:00:00.40'', duration = 300, lap = ''00:00:00.30'' \<rparr>,
    \<lparr> id_split = 3, time_split = ''00:00:00.60'', duration = 200, lap = ''00:00:00.20'' \<rparr>] \<noteq> []
   \<and> calculateStats
     [\<lparr> id_split = 1, time_split = ''00:00:00.10'', duration = 100, lap = ''00:00:00.10'' \<rparr>,
      \<lparr> id_split = 2, time_split = ''00:00:00.40'', duration = 300, lap = ''00:00:00.30'' \<rparr>,
      \<lparr> id_split = 3, time_split = ''00:00:00.60'', duration = 200, lap = ''00:00:00.20'' \<rparr>] =
     Some \<lparr> average = \<lparr> hours = ''00'', minutes = ''00'', seconds = ''00'', milliseconds = ''20'' \<rparr>,
            best = \<lparr> hours = ''00'', minutes = ''00'', seconds = ''00'', milliseconds = ''10'' \<rparr>,
            worst = \<lparr> hours = ''00'', minutes = ''00'', seconds = ''00'', milliseconds = ''30'' \<rparr> \<rparr>"
  (is "?ss \<noteq> [] \<and> _")
proof -
  have ne: "?ss \<noteq> []" by simp
  have d: "map duration ?ss = [100, 300, 200]"
    by simp
  have f: "formatTime 200 = \<lparr> hours = ''00'', minutes = ''00'', seconds = ''00'', milliseconds = ''20'' \<rparr>"
    "formatTime 100 = \<lparr> hours = ''00'', minutes = ''00'', seconds = ''00'', milliseconds = ''10'' \<rparr>"
    "formatTime 300 = \<lparr> hours = ''00'', minutes = ''00'', seconds = ''00'', milliseconds = ''30'' \<rparr>"
    by code_simp+
  from calculateStats_mean_min_max [of ?ss] d
  have "calculateStats ?ss =
          Some \<lparr> average = formatTime 200, best = formatTime 100, worst = formatTime 300 \<rparr>"
    by blast
  with ne show ?thesis by (simp only: f) simp
qed

text \<open>
  Claim C10. For a non-empty split sequence the average that \<open>calculateStats\<close> formats is
  the exact quotient of the sum of the lap durations by their number, which need not be
  an integer (100 and 105 give 205/2); and for every number \<open>ms \<ge> 0\<close>, integer or not, the
  fields of \<open>formatTime ms\<close> are in range (minutes and seconds in 0..59, hundredths in
  0..99), stand for a number of milliseconds within 10 below \<open>ms\<close>, and are rendered
  as strings that read back as the fields.
\<close>

theorem average_lap_may_be_fractional:
  "(ss \<noteq> [] \<longrightarrow>
      (\<exists>st. calculateStats ss = Some st
          \<and> average st = formatTime (avgLap (map duration ss)))
      \<and> avgLap (map duration ss) = of_int (sum_list (map duration ss)) / of_nat (length ss))
   \<and> avgLap [100, 105] = 205 / 2
   \<and> of_int \<lfloor>avgLap [100, 105]\<rfloor> \<noteq> avgLap [100, 105]
   \<and> (0 \<le> ms \<longrightarrow>
        0 \<le> f_hours (time_fields ms)
      \<and> f_minutes (time_fields ms) \<in> {0..59}
      \<and> f_seconds (time_fields ms) \<in> {0..59}
      \<and> f_milliseconds (time_fields ms) \<in> {0..99}
      \<and> of_int (fields_ms (time_fields ms)) \<le> ms
      \<and> ms < of_int (fields_ms (time_fields ms)) + 10
      \<and> parseInt (hours (formatTime ms)) = Some (f_hours (time_fields ms))
      \<and> parseInt (minutes (formatTime ms)) = Some (f_minutes (time_fields ms))
      \<and> parseInt (seconds (formatTime ms)) = Some (f_seconds (time_fields ms))
      \<and> parseInt (milliseconds (formatTime ms)) = Some (f_milliseconds (time_fields ms)))"
proof (intro conjI impI)
  assume ne: "ss \<noteq> []"
  show "\<exists>st. calculateStats ss = Some st \<and> average st = formatTime (avgLap (map duration ss))"
    using ne by (simp add: calculateStats_def Let_def)
  show "avgLap (map duration ss) = of_int (sum_list (map duration ss)) / of_nat (length ss)"
    by (simp add: avgLap_mean)
next
  show a: "avgLap [100, 105] = 205 / 2" by (simp add: avgLap_def)
  have "\<lfloor>205 / 2 :: rat\<rfloor> = 102" by (rule floor_unique) simp_all
  then show "of_int \<lfloor>avgLap [100, 105]\<rfloor> \<noteq> avgLap [100, 105]"
    by (simp add: a)
next
  assume ms: "0 \<le> ms"
  note r = time_fields_ranges [OF ms]
  show "0 \<le> f_hours (time_fields ms)" by (rule r)
  show "f_minutes (time_fields ms) \<in> {0..59}" using r by simp
  show "f_seconds (time_fields ms) \<in> {0..59}" using r by simp
  show "f_milliseconds (time_fields ms) \<in> {0..99}" using r by simp
  show "of_int (fields_ms (time_fields ms)) \<le> ms" by (rule fields_ms_bounds [OF ms])
  show "ms < of_int (fields_ms (time_fields ms)) + 10" by (rule fields_ms_bounds [OF ms])
  show "parseInt (hours (formatTime ms)) = Some (f_hours (time_fields ms))"
    by (rule formatTime_parse [OF ms])
  show "parseInt (minutes (formatTime ms)) = Some (f_minutes (time_fields ms))"
    by (rule formatTime_parse [OF ms])
  show "parseInt (seconds (formatTime ms)) = Some (f_seconds (time_fields ms))"
    by (rule formatTime_parse [OF ms])
  show "parseInt (milliseconds (formatTime ms)) = Some (f_milliseconds (time_fields ms))"
    by (rule formatTime_parse [OF ms])
qed

theorem average_lap_may_be_fractional_witness:
  "[\<lparr> id_split = 1, time_split = ''00:01:00.10'', duration = 60100, lap = ''00:01:00.10'' \<rparr>,
    \<lparr> id_split = 2, time_split = ''00:02:00.20'', duration = 60105, lap = ''00:01:00.10'' \<rparr>] \<noteq> []
   \<and> (0::rat) \<le> 120205 / 2
   \<and> time_fields (120205 / 2) =
        \<lparr> f_hours = 0, f_minutes = 1, f_seconds = 0, f_milliseconds = 10 \<rparr>
   \<and> f_minutes (time_fields (120205 / 2)) \<in> {0..59}
   \<and> parseInt (milliseconds (formatTime (120205 / 2))) = Some 10
   \<and> (\<exists>st. calculateStats
          [\<lparr> id_split = 1, time_split = ''00:01:00.10'', duration = 60100, lap = ''00:01:00.10'' \<rparr>,
           \<lparr> id_split = 2, time_split = ''00:02:00.20'', duration = 60105, lap = ''00:01:00.10'' \<rparr>] = Some st
        \<and> average st = formatTime (120205 / 2))"
  (is "?ss \<noteq> [] \<and> _")
proof -
  have ne: "?ss \<noteq> []" by simp
  have ms: "(0::rat) \<le> 120205 / 2" by simp
  have tf: "time_fields (120205 / 2) =
        \<lparr> f_hours = 0, f_minutes = 1, f_seconds = 0, f_milliseconds = 10 \<rparr>"
    by code_simp
  have av: "avgLap (map duration ?ss) = 120205 / 2" by (simp add: avgLap_def)
  from average_lap_may_be_fractional [of ?ss "120205 / 2"] ne ms
  have "\<exists>st. calculateStats ?ss = Some st \<and> average st = formatTime (avgLap (map duration ?ss))"
    and "f_minutes (time_fields (120205 / 2)) \<in> {0..59}"
    and "parseInt (milliseconds (formatTime (120205 / 2))) = Some (f_milliseconds (time_fields (120205 / 2)))"
    by blast+
  then show ?thesis using ne ms tf by (simp only: av) simp
qed

section \<open>Facts about the target\<close>

lemma alertCondition_Some:
  "alertCondition (Some T) prevTime newTime \<longleftrightarrow> 0 < T \<and> T \<le> newTime \<and> prevTime < T"
  by (simp add: alertCondition_def less_n_def less_eq_n_def)

lemma alertCondition_None: "\<not> alertCondition None prevTime newTime"
  by (simp add: alertCondition_def less_n_def)

lemma targetMs_parsed:
  assumes "parseInt (hours t) = Some h" "parseInt (minutes t) = Some m" "parseInt (seconds t) = Some s"
  shows "targetMs t = Some (h * 3600000 + m * 60000 + s * 1000)"
  using assms by (simp add: targetMs_def times_n_def plus_n_def)

lemma targetMs_unparsed:
  assumes "parseInt (hours t) = None \<or> parseInt (minutes t) = None \<or> parseInt (seconds t) = None"
  shows "targetMs t = None"
  using assms by (auto simp add: targetMs_def times_n_def plus_n_def split: option.splits)

text \<open>
  Claim C2, as stated, fails: with the hours field \<open>''.5''\<close>, which \<^verbatim>\<open>parseInt\<close> does not
  parse, the threshold is \<^verbatim>\<open>NaN\<close> and not the 5000 of a field that counts as 0, and the
  tick from 4990 to 5000 does not play the alert.
\<close>

theorem targetMs_unparseable_counterexample:
  "targetMs \<lparr> hours = ''.5'', minutes = ''00'', seconds = ''05'' \<rparr> = None
   \<and> targetMs_spec \<lparr> hours = ''.5'', minutes = ''00'', seconds = ''05'' \<rparr> = 5000
   \<and> targetMs \<lparr> hours = ''.5'', minutes = ''00'', seconds = ''05'' \<rparr>
        \<noteq> Some (targetMs_spec \<lparr> hours = ''.5'', minutes = ''00'', seconds = ''05'' \<rparr>)
   \<and> \<not> alertCondition (targetMs \<lparr> hours = ''.5'', minutes = ''00'', seconds = ''05'' \<rparr>) 4990 5000"
proof -
  have h: "parseInt ''.5'' = None" by code_simp
  have m: "parseInt ''00'' = Some 0" by code_simp
  have s: "parseInt ''05'' = Some 5" by code_simp
  have t: "targetMs \<lparr> hours = ''.5'', minutes = ''00'', seconds = ''05'' \<rparr> = None"
    by (rule targetMs_unparsed) (simp add: h)
  have sp: "targetMs_spec \<lparr> hours = ''.5'', minutes = ''00'', seconds = ''05'' \<rparr> = 5000"
    by (simp add: targetMs_spec_def field_or_zero_def h m s)
  show ?thesis by (simp add: t sp alertCondition_None)
qed

text \<open>
  Claim C2, amended. When all three fields parse, the threshold is
  hours * 3600000 + minutes * 60000 + seconds * 1000. When a field does not parse, the
  threshold is \<^verbatim>\<open>NaN\<close> and the alert condition is false on every tick. The computation
  has a value in both cases: nothing is thrown.
\<close>

theorem targetMs_all_or_NaN:
  "(parseInt (hours t) = Some h \<and> parseInt (minutes t) = Some m \<and> parseInt (seconds t) = Some s
      \<longrightarrow> targetMs t = Some (h * 3600000 + m * 60000 + s * 1000))
   \<and> (parseInt (hours t) = None \<or> parseInt (minutes t) = None \<or> parseInt (seconds t) = None
      \<longrightarrow> targetMs t = None \<and> \<not> alertCondition (targetMs t) prevTime newTime)"
  by (auto simp add: targetMs_parsed targetMs_unparsed alertCondition_None)

theorem targetMs_all_or_NaN_witness:
  "targetMs \<lparr> hours = ''01'', minutes = ''02'', seconds = ''03'' \<rparr> = Some 3723000
   \<and> targetMs \<lparr> hours = ''00'', minutes = ''abc'', seconds = ''05'' \<rparr> = None
   \<and> \<not> alertCondition (targetMs \<lparr> hours = ''00'', minutes = ''abc'', seconds = ''05'' \<rparr>) 4990 5000"
proof -
  have p: "parseInt ''01'' = Some 1" "parseInt ''02'' = Some 2" "parseInt ''03'' = Some 3"
    "parseInt ''abc'' = None"
    by code_simp+
  have a: "targetMs \<lparr> hours = ''01'', minutes = ''02'', seconds = ''03'' \<rparr> = Some 3723000"
    using targetMs_all_or_NaN [of "\<lparr> hours = ''01'', minutes = ''02'', seconds = ''03'' \<rparr>" 1 2 3] p
    by simp
  have b: "targetMs \<lparr> hours = ''00'', minutes = ''abc'', seconds = ''05'' \<rparr> = None
     \<and> \<not> alertCondition (targetMs \<lparr> hours = ''00'', minutes = ''abc'', seconds = ''05'' \<rparr>) 4990 5000"
  proof -
    have u: "parseInt (minutes \<lparr> hours = ''00'', minutes = ''abc'', seconds = ''05'' \<rparr>) = None"
      by (simp add: p)
    from targetMs_all_or_NaN [of "\<lparr> hours = ''00'', minutes = ''abc'', seconds = ''05'' \<rparr>" _ _ _ 4990 5000] u
    show ?thesis by blast
  qed
  from a b show ?thesis by blast
qed

section \<open>Facts about runs of events\<close>

lemma exec_Nil: "exec target a [] = a"
  by (simp add: exec_def)

lemma exec_Cons: "exec target a (e # evs) = exec target (step target a e) evs"
  by (simp add: exec_def)

lemma exec_append: "exec target a (evs @ evs') = exec target (exec target a evs) evs'"
  by (simp add: exec_def)

lemma exec_snoc: "exec target a (evs @ [e]) = step target (exec target a evs) e"
  by (simp add: exec_def)

lemma cur_commit: "cur (commit a s) = s" and plays_commit: "plays (commit a s) = plays a"
  by (simp_all add: commit_def)

lemma step_time_plays:
  assumes "\<not> is_reset e" "targetMs target = Some T"
  shows "time (cur a) \<le> time (cur (step target a e))
       \<and> plays (step target a e) =
           plays a + (if 0 < T \<and> time (cur a) < T \<and> T \<le> time (cur (step target a e)) then 1 else 0)"
proof (cases e)
  case Tick
  then show ?thesis
    using assms(2)
    by (simp add: tick_def Let_def cur_commit plays_commit alertCondition_Some)
next
  case ClickStartStop
  then show ?thesis by (simp add: cur_commit plays_commit handleStartStop_def)
next
  case (ClickSplit now)
  then show ?thesis by (simp add: cur_commit plays_commit handleSplit_def Let_def)
next
  case ClickReset
  with assms(1) show ?thesis by (simp add: is_reset_def)
next
  case KeySpace
  then show ?thesis by (simp add: cur_commit plays_commit handleStartStop_def)
next
  case (KeyS now)
  then show ?thesis by (simp add: cur_commit plays_commit handleSplit_def Let_def)
next
  case KeyR
  with assms(1) show ?thesis by (simp add: is_reset_def)
qed

lemma exec_time_plays:
  assumes "list_all (\<lambda>e. \<not> is_reset e) evs" "targetMs target = Some T"
  shows "time (cur a) \<le> time (cur (exec target a evs))
       \<and> plays (exec target a evs) =
           plays a + (if 0 < T \<and> time (cur a) < T \<and> T \<le> time (cur (exec target a evs)) then 1 else 0)"
  using assms(1)
proof (induction evs arbitrary: a)
  case Nil
  show ?case by (simp add: exec_Nil)
next
  case (Cons e evs)
  then have e: "\<not> is_reset e" and evs: "list_all (\<lambda>e. \<not> is_reset e) evs" by simp_all
  let ?b = "step target a e"
  note s = step_time_plays [OF e assms(2), of a]
  note r = Cons.IH [OF evs, of ?b]
  from s r show ?case
    by (simp only: exec_Cons) (auto split: if_splits)
qed

lemma step_no_target:
  assumes "targetMs target = None \<or> targetMs target = Some 0"
  shows "plays (step target a e) = plays a"
proof (cases e)
  case Tick
  from assms show ?thesis
    by (auto simp add: Tick tick_def Let_def cur_commit plays_commit alertCondition_Some alertCondition_None)
qed (simp_all add: plays_commit)

lemma exec_no_target:
  assumes "targetMs target = None \<or> targetMs target = Some 0"
  shows "plays (exec target a evs) = plays a"
  by (induction evs arbitrary: a) (simp_all add: exec_Nil exec_Cons step_no_target [OF assms])

lemma targetMs_zero: "targetMs \<lparr> hours = ''00'', minutes = ''00'', seconds = ''00'' \<rparr> = Some 0"
proof -
  have "parseInt ''00'' = Some 0" by code_simp
  then show ?thesis by (simp add: targetMs_parsed)
qed


lemma exec_ticks:
  assumes "isRunning (cur a)"
  shows "time (cur (exec target a (replicate n Tick))) = time (cur a) + 10 * int n
       \<and> isRunning (cur (exec target a (replicate n Tick)))
       \<and> splits (cur (exec target a (replicate n Tick))) = splits (cur a)
       \<and> lastSplitTime (cur (exec target a (replicate n Tick))) = lastSplitTime (cur a)
       \<and> keydown (exec target a (replicate n Tick)) = keydown a"
  using assms
proof (induction n arbitrary: a)
  case 0
  then show ?case by (simp add: exec_Nil)
next
  case (Suc n)
  let ?b = "step target a Tick"
  have b: "isRunning (cur ?b)" "time (cur ?b) = time (cur a) + 10"
    "splits (cur ?b) = splits (cur a)" "lastSplitTime (cur ?b) = lastSplitTime (cur a)"
    "keydown ?b = keydown a"
    using Suc.prems by (simp_all add: tick_def Let_def commit_def)
  from Suc.IH [OF b(1)] b show ?case
    by (simp add: exec_Cons)
qed

lemma started:
  "cur (step target mounted ClickStartStop) =
     \<lparr> time = 0, isRunning = True, splits = [], lastSplitTime = 0 \<rparr>"
  "keydown (step target mounted ClickStartStop) = \<lparr> c_time = 0, c_isRunning = True \<rparr>"
  "plays (step target mounted ClickStartStop) = 0"
  by (simp_all add: mounted_def Let_def commit_def handleStartStop_def render_def)


text \<open>
  Claim C1. The alert condition of a tick holds exactly when the threshold is positive,
  the new elapsed time has reached it and the previous one was below it. Hence, over any
  sequence of events without a reset and with a fixed positive threshold \<open>T\<close>, the alert
  is played once if the elapsed time goes from below \<open>T\<close> to \<open>T\<close> or beyond and not at
  all otherwise; once the elapsed time has crossed \<open>T\<close>, later events play nothing more;
  and with the target 00:00:00 the alert is never played.
\<close>

theorem alert_fires_once:
  "(alertCondition (Some T) prevTime newTime \<longleftrightarrow> 0 < T \<and> T \<le> newTime \<and> prevTime < T)
   \<and> (targetMs target = Some T \<and> 0 < T \<and> list_all (\<lambda>e. \<not> is_reset e) evs \<longrightarrow>
        plays (exec target a evs) =
          plays a + (if time (cur a) < T \<and> T \<le> time (cur (exec target a evs)) then 1 else 0))
   \<and> (targetMs target = Some T \<and> 0 < T \<and> list_all (\<lambda>e. \<not> is_reset e) (evs @ later)
        \<and> time (cur a) < T \<and> T \<le> time (cur (exec target a evs)) \<longrightarrow>
        plays (exec target a evs) = plays a + 1
        \<and> plays (exec target a (evs @ later)) = plays a + 1)
   \<and> targetMs \<lparr> hours = ''00'', minutes = ''00'', seconds = ''00'' \<rparr> = Some 0
   \<and> plays (exec \<lparr> hours = ''00'', minutes = ''00'', seconds = ''00'' \<rparr> a evs) = plays a"
proof (intro conjI impI)
  show "alertCondition (Some T) prevTime newTime \<longleftrightarrow> 0 < T \<and> T \<le> newTime \<and> prevTime < T"
    by (rule alertCondition_Some)
next
  assume h: "targetMs target = Some T \<and> 0 < T \<and> list_all (\<lambda>e. \<not> is_reset e) evs"
  then show "plays (exec target a evs) =
          plays a + (if time (cur a) < T \<and> T \<le> time (cur (exec target a evs)) then 1 else 0)"
    using exec_time_plays [of evs target T a] by simp
next
  assume h: "targetMs target = Some T \<and> 0 < T \<and> list_all (\<lambda>e. \<not> is_reset e) (evs @ later)
        \<and> time (cur a) < T \<and> T \<le> time (cur (exec target a evs))"
  then have t: "targetMs target = Some T" and T: "0 < T"
    and evs: "list_all (\<lambda>e. \<not> is_reset e) evs" and later: "list_all (\<lambda>e. \<not> is_reset e) later"
    and lo: "time (cur a) < T" and hi: "T \<le> time (cur (exec target a evs))"
    by simp_all
  show 1: "plays (exec target a evs) = plays a + 1"
    using exec_time_plays [OF evs t, of a] T lo hi by simp
  show "plays (exec target a (evs @ later)) = plays a + 1"
    using exec_time_plays [OF later t, of "exec target a evs"] hi 1
    by (simp add: exec_append)
next
  show "targetMs \<lparr> hours = ''00'', minutes = ''00'', seconds = ''00'' \<rparr> = Some 0"
    by (rule targetMs_zero)
next
  show "plays (exec \<lparr> hours = ''00'', minutes = ''00'', seconds = ''00'' \<rparr> a evs) = plays a"
    by (rule exec_no_target) (simp add: targetMs_zero)
qed

theorem alert_fires_once_witness:
  "alertCondition (Some 5000) 4990 5000
   \<and> \<not> alertCondition (Some 5000) 5000 5010
   \<and> targetMs \<lparr> hours = ''00'', minutes = ''00'', seconds = ''05'' \<rparr> = Some 5000
   \<and> plays (exec \<lparr> hours = ''00'', minutes = ''00'', seconds = ''05'' \<rparr> mounted
              (ClickStartStop # replicate 499 Tick)) = 0
   \<and> plays (exec \<lparr> hours = ''00'', minutes = ''00'', seconds = ''05'' \<rparr> mounted
              (ClickStartStop # replicate 500 Tick)) = 1
   \<and> plays (exec \<lparr> hours = ''00'', minutes = ''00'', seconds = ''05'' \<rparr> mounted
              ((ClickStartStop # replicate 500 Tick) @ [Tick, ClickStartStop, KeySpace, Tick])) = 1"
  (is "_ \<and> _ \<and> targetMs ?tg = _ \<and> _")
proof -
  have p: "parseInt ''00'' = Some 0" "parseInt ''05'' = Some 5" by code_simp+
  have tg: "targetMs ?tg = Some 5000" by (simp add: targetMs_parsed p)
  have nr: "list_all (\<lambda>e. \<not> is_reset e) (ClickStartStop # replicate n Tick)" for n
    by (induction n) (simp_all add: is_reset_def)
  have nr2: "list_all (\<lambda>e. \<not> is_reset e)
      ((ClickStartStop # replicate 500 Tick) @ [Tick, ClickStartStop, KeySpace, Tick])"
    using nr [of 500] by (simp add: is_reset_def)
  have t0: "time (cur mounted) = 0" "plays mounted = 0" by (simp_all add: mounted_def Let_def)
  have t499: "time (cur (exec ?tg mounted (ClickStartStop # replicate 499 Tick))) = 4990"
    using exec_ticks [of "step ?tg mounted ClickStartStop" ?tg 499]
    by (simp add: exec_Cons started del: step.simps)
  have t500: "time (cur (exec ?tg mounted (ClickStartStop # replicate 500 Tick))) = 5000"
    using exec_ticks [of "step ?tg mounted ClickStartStop" ?tg 500]
    by (simp add: exec_Cons started del: step.simps)
  note w = alert_fires_once [where target = ?tg and T = 5000 and a = mounted]
  have a: "alertCondition (Some 5000) 4990 5000"
    using w [where prevTime = 4990 and newTime = 5000] by simp
  have b: "\<not> alertCondition (Some 5000) 5000 5010"
    using w [where prevTime = 5000 and newTime = 5010] by simp
  have c: "plays (exec ?tg mounted (ClickStartStop # replicate 499 Tick)) = 0"
    using w [where evs = "ClickStartStop # replicate 499 Tick"] tg nr [of 499] t0 t499 by simp
  have d: "plays (exec ?tg mounted (ClickStartStop # replicate 500 Tick)) = 1"
    using w [where evs = "ClickStartStop # replicate 500 Tick"] tg nr [of 500] t0 t500 by simp
  have e: "plays (exec ?tg mounted
              ((ClickStartStop # replicate 500 Tick) @ [Tick, ClickStartStop, KeySpace, Tick])) = 1"
    using w [where evs = "ClickStartStop # replicate 500 Tick"
               and later = "[Tick, ClickStartStop, KeySpace, Tick]"] tg nr2 t0 t500
    by simp
  from a b tg c d e show ?thesis by blast
qed

lemma exec_snoc2:
  "exec target a (evs @ [e, e']) = step target (step target (exec target a evs) e) e'"
  by (simp add: exec_def)

lemma commit_same: "commit a (cur a) = a"
  by (simp add: commit_def)

lemma step_split_fields:
  "cur (step target a (ClickSplit now)) = handleSplit (render (cur a)) now (cur a)"
  "cur (step target a (KeyS now)) = handleSplit (keydown a) now (cur a)"
  "keydown (step target a (ClickSplit now)) = keydown a"
  "keydown (step target a (KeyS now)) = keydown a"
  by (simp_all add: commit_def handleSplit_def Let_def)

lemma step_keydown_running:
  assumes "c_isRunning (keydown a) = isRunning (cur a)"
  shows "c_isRunning (keydown (step target a e)) = isRunning (cur (step target a e))"
  using assms
  by (cases e)
    (simp_all add: commit_def render_def tick_def Let_def handleStartStop_def handleReset_def
      handleSplit_def)

lemma keydown_running:
  "c_isRunning (keydown (exec target mounted evs)) = isRunning (cur (exec target mounted evs))"
proof (induction evs rule: rev_induct)
  case Nil
  show ?case by (simp add: exec_Nil mounted_def Let_def render_def)
next
  case (snoc e evs)
  then show ?case by (simp only: exec_snoc step_keydown_running)
qed

text \<open>
  Claim C4. From every state, a reset (the handler, the button and the key) gives the state
  with \<^verbatim>\<open>isRunning\<close> false, \<^verbatim>\<open>time\<close> 0, no splits and \<^verbatim>\<open>lastSplitTime\<close> 0.
\<close>

theorem reset_clears_everything:
  "handleReset s = \<lparr> time = 0, isRunning = False, splits = [], lastSplitTime = 0 \<rparr>
   \<and> cur (step target a ClickReset) = \<lparr> time = 0, isRunning = False, splits = [], lastSplitTime = 0 \<rparr>
   \<and> cur (step target a KeyR) = \<lparr> time = 0, isRunning = False, splits = [], lastSplitTime = 0 \<rparr>"
  by (simp add: handleReset_def cur_commit)

theorem reset_clears_everything_witness:
  "handleReset \<lparr> time = 4200, isRunning = True,
       splits = [\<lparr> id_split = 7, time_split = ''00:00:01.50'', duration = 1500, lap = ''00:00:01.50'' \<rparr>],
       lastSplitTime = 1500 \<rparr>
     = \<lparr> time = 0, isRunning = False, splits = [], lastSplitTime = 0 \<rparr>"
  using reset_clears_everything
    [of "\<lparr> time = 4200, isRunning = True,
       splits = [\<lparr> id_split = 7, time_split = ''00:00:01.50'', duration = 1500, lap = ''00:00:01.50'' \<rparr>],
       lastSplitTime = 1500 \<rparr>"]
  by blast

text \<open>
  Claim C5. While the stopwatch is stopped a split changes nothing: the handler of the
  current render returns the state as it is, so does the button, and so does the key in
  every state the component can reach. The handler has no failing branch.
\<close>

theorem split_while_stopped_is_ignored:
  "(\<not> isRunning s \<longrightarrow> handleSplit (render s) now s = s)
   \<and> (\<not> isRunning (cur a) \<longrightarrow> step target a (ClickSplit now) = a)
   \<and> (\<not> isRunning (cur (exec target mounted evs)) \<longrightarrow>
        step target (exec target mounted evs) (KeyS now) = exec target mounted evs)"
proof (intro conjI impI)
  assume "\<not> isRunning s"
  then show "handleSplit (render s) now s = s"
    by (simp add: handleSplit_def render_def)
next
  assume "\<not> isRunning (cur a)"
  then show "step target a (ClickSplit now) = a"
    by (simp add: handleSplit_def render_def commit_same)
next
  assume "\<not> isRunning (cur (exec target mounted evs))"
  then have "\<not> c_isRunning (keydown (exec target mounted evs))"
    by (simp add: keydown_running)
  then show "step target (exec target mounted evs) (KeyS now) = exec target mounted evs"
    by (simp add: handleSplit_def commit_same)
qed


theorem split_while_stopped_is_ignored_witness:
  "\<not> isRunning (cur (exec \<lparr> hours = ''00'', minutes = ''00'', seconds = ''00'' \<rparr> mounted
                         [KeySpace, Tick, Tick, ClickStartStop]))
   \<and> cur (exec \<lparr> hours = ''00'', minutes = ''00'', seconds = ''00'' \<rparr> mounted
             [KeySpace, Tick, Tick, ClickStartStop, KeyS 1762077600000, ClickSplit 1762077600500])
       = \<lparr> time = 20, isRunning = False, splits = [], lastSplitTime = 0 \<rparr>"
  (is "\<not> isRunning (cur (exec ?tg mounted ?evs)) \<and> _")
proof -
  have c: "cur (exec ?tg mounted ?evs) = \<lparr> time = 20, isRunning = False, splits = [], lastSplitTime = 0 \<rparr>"
    by (simp add: exec_def mounted_def Let_def commit_def render_def tick_def handleStartStop_def)
  then have st: "\<not> isRunning (cur (exec ?tg mounted ?evs))" by simp
  note w = split_while_stopped_is_ignored [where target = ?tg and evs = ?evs]
  have k: "step ?tg (exec ?tg mounted ?evs) (KeyS 1762077600000) = exec ?tg mounted ?evs"
    using w [where now = 1762077600000] st by blast
  have b: "step ?tg (exec ?tg mounted ?evs) (ClickSplit 1762077600500) = exec ?tg mounted ?evs"
    using w [where now = 1762077600500 and a = "exec ?tg mounted ?evs"] st by blast
  have "exec ?tg mounted (?evs @ [KeyS 1762077600000, ClickSplit 1762077600500])
        = step ?tg (step ?tg (exec ?tg mounted ?evs) (KeyS 1762077600000)) (ClickSplit 1762077600500)"
    by (rule exec_snoc2)
  also have "\<dots> = exec ?tg mounted ?evs"
    by (simp only: k b)
  finally show ?thesis using c st by simp
qed

section \<open>Facts about splits\<close>

lemma exec_ticks_cur:
  assumes "isRunning (cur a)"
  shows "cur (exec target a (replicate n Tick)) = (cur a)\<lparr>time := time (cur a) + 10 * int n\<rparr>"
  using exec_ticks [OF assms, of target n] assms by (intro state.equality) simp_all

lemma exec_ticks_keydown:
  assumes "isRunning (cur a)"
  shows "keydown (exec target a (replicate n Tick)) = keydown a"
  using exec_ticks [OF assms, of target n] by simp

lemma handleSplit_current:
  assumes "isRunning s"
  shows "handleSplit (render s) now s =
     s\<lparr>splits := splits s @
          [\<lparr> id_split = now, time_split = label (formatTime (of_int (time s))),
             duration = time s - lastSplitTime s,
             lap = label (formatTime (of_int (time s - lastSplitTime s))) \<rparr>],
       lastSplitTime := time s\<rparr>"
  using assms by (simp add: handleSplit_def render_def Let_def)

text \<open>The button path: laps are differences of successive split times.\<close>

lemma step_button_laps:
  assumes "\<not> is_key_split e"
    and "lastSplitTime (cur a) \<le> time (cur a)"
    and "list_all (\<lambda>x. 0 \<le> duration x) (splits (cur a))"
    and "sum_list (map duration (splits (cur a))) = lastSplitTime (cur a)"
  shows "lastSplitTime (cur (step target a e)) \<le> time (cur (step target a e))
       \<and> list_all (\<lambda>x. 0 \<le> duration x) (splits (cur (step target a e)))
       \<and> sum_list (map duration (splits (cur (step target a e)))) = lastSplitTime (cur (step target a e))"
proof (cases e)
  case (KeyS now)
  with assms(1) show ?thesis by (simp add: is_key_split_def)
qed (use assms(2-4) in \<open>simp_all add: cur_commit tick_def Let_def handleStartStop_def handleReset_def
      handleSplit_def render_def\<close>)

lemma button_laps:
  assumes "list_all (\<lambda>e. \<not> is_key_split e) evs"
  shows "lastSplitTime (cur (exec target mounted evs)) \<le> time (cur (exec target mounted evs))
       \<and> list_all (\<lambda>x. 0 \<le> duration x) (splits (cur (exec target mounted evs)))
       \<and> sum_list (map duration (splits (cur (exec target mounted evs))))
           = lastSplitTime (cur (exec target mounted evs))"
  using assms
proof (induction evs rule: rev_induct)
  case Nil
  show ?case by (simp add: exec_Nil mounted_def Let_def)
next
  case (snoc e evs)
  then have e: "\<not> is_key_split e" and evs: "list_all (\<lambda>e. \<not> is_key_split e) evs" by simp_all
  from snoc.IH [OF evs] show ?case
    by (simp only: exec_snoc) (intro step_button_laps [OF e], simp_all)
qed

text \<open>With the keyboard as well, the split boundary never exceeds the elapsed time.\<close>

lemma step_boundary:
  assumes "lastSplitTime (cur a) \<le> time (cur a)"
    and "c_isRunning (keydown a) = isRunning (cur a)"
    and "isRunning (cur a) \<longrightarrow> c_time (keydown a) \<le> time (cur a)"
  shows "lastSplitTime (cur (step target a e)) \<le> time (cur (step target a e))
       \<and> (isRunning (cur (step target a e)) \<longrightarrow>
            c_time (keydown (step target a e)) \<le> time (cur (step target a e)))"
  using assms
  by (cases e)
    (auto simp add: commit_def render_def tick_def Let_def handleStartStop_def handleReset_def
      handleSplit_def)

lemma boundary_le_elapsed:
  "lastSplitTime (cur (exec target mounted evs)) \<le> time (cur (exec target mounted evs))
   \<and> (isRunning (cur (exec target mounted evs)) \<longrightarrow>
        c_time (keydown (exec target mounted evs)) \<le> time (cur (exec target mounted evs)))"
proof (induction evs rule: rev_induct)
  case Nil
  show ?case by (simp add: exec_Nil mounted_def Let_def render_def)
next
  case (snoc e evs)
  then show ?case
    by (simp only: exec_snoc) (intro step_boundary keydown_running, simp_all)
qed

lemma started_key:
  "cur (step target mounted KeySpace) =
     \<lparr> time = 0, isRunning = True, splits = [], lastSplitTime = 0 \<rparr>"
  "keydown (step target mounted KeySpace) = \<lparr> c_time = 0, c_isRunning = True \<rparr>"
  by (simp_all add: mounted_def Let_def commit_def handleStartStop_def render_def)

lemma labels:
  "label (formatTime 0) = ''00:00:00.00''"
  "label (formatTime 1500) = ''00:00:01.50''"
  "label (formatTime (- 1500)) = ''-1:-1:-2.-50''"
  by code_simp+

text \<open>
  Claim C6 on the keyboard path. Start with the space bar, let 150 ticks pass (1.5 s) and
  press \<^verbatim>\<open>S\<close>: the listener's handler still reads the \<^verbatim>\<open>time\<close> of the render in which the
  stopwatch was started, 0. The split is recorded with lap duration 0 and label
  00:00:00.00, and \<^verbatim>\<open>lastSplitTime\<close> is set to 0, where the elapsed time is 1500. (The
  button does record 1500: \<open>handleSplit_current\<close>, \<open>button_laps\<close>.)
\<close>

theorem keyboard_split_reads_stale_time:
  "cur (exec \<lparr> hours = ''00'', minutes = ''00'', seconds = ''00'' \<rparr> mounted
          ((KeySpace # replicate 150 Tick) @ [KeyS 1762077601500]))
     = \<lparr> time = 1500, isRunning = True,
         splits = [\<lparr> id_split = 1762077601500, time_split = ''00:00:00.00'',
                     duration = 0, lap = ''00:00:00.00'' \<rparr>],
         lastSplitTime = 0 \<rparr>"
  (is "cur (exec ?tg mounted _) = _")
proof -
  let ?a1 = "step ?tg mounted KeySpace"
  let ?a2 = "exec ?tg ?a1 (replicate 150 Tick)"
  have r1: "isRunning (cur ?a1)" by (simp only: started_key) simp
  have c2: "cur ?a2 = \<lparr> time = 1500, isRunning = True, splits = [], lastSplitTime = 0 \<rparr>"
    by (simp only: exec_ticks_cur [OF r1] started_key) simp
  have k2: "keydown ?a2 = \<lparr> c_time = 0, c_isRunning = True \<rparr>"
    by (simp only: exec_ticks_keydown [OF r1] started_key)
  have "cur (exec ?tg mounted ((KeySpace # replicate 150 Tick) @ [KeyS 1762077601500]))
        = handleSplit (keydown ?a2) 1762077601500 (cur ?a2)"
    by (simp only: exec_append exec_Cons exec_Nil step_split_fields)
  also have "\<dots> = \<lparr> time = 1500, isRunning = True,
         splits = [\<lparr> id_split = 1762077601500, time_split = ''00:00:00.00'',
                     duration = 0, lap = ''00:00:00.00'' \<rparr>],
         lastSplitTime = 0 \<rparr>"
    by (simp only: c2 k2) (simp add: handleSplit_def Let_def labels)
  finally show ?thesis .
qed

text \<open>
  Claim C9 on the keyboard path. Start, split with the button at 1500, and press \<^verbatim>\<open>S\<close> at
  2000: the handler of the listener computes the lap as its stale \<^verbatim>\<open>time\<close>, 0, minus the
  boundary 1500. The recorded lap duration is -1500, and the boundary goes back to 0. (The
  boundary itself never exceeds the elapsed time: \<open>boundary_le_elapsed\<close>; with the button
  alone no lap is negative: \<open>button_laps\<close>.)
\<close>

theorem keyboard_split_negative_lap:
  "cur (exec \<lparr> hours = ''00'', minutes = ''00'', seconds = ''00'' \<rparr> mounted
          ((((ClickStartStop # replicate 150 Tick) @ [ClickSplit 1762077601500])
              @ replicate 50 Tick) @ [KeyS 1762077602000]))
     = \<lparr> time = 2000, isRunning = True,
         splits = [\<lparr> id_split = 1762077601500, time_split = ''00:00:01.50'',
                     duration = 1500, lap = ''00:00:01.50'' \<rparr>,
                   \<lparr> id_split = 1762077602000, time_split = ''00:00:00.00'',
                     duration = - 1500, lap = ''-1:-1:-2.-50'' \<rparr>],
         lastSplitTime = 0 \<rparr>"
  (is "cur (exec ?tg mounted _) = _")
proof -
  let ?a1 = "step ?tg mounted ClickStartStop"
  let ?a2 = "exec ?tg ?a1 (replicate 150 Tick)"
  let ?a3 = "step ?tg ?a2 (ClickSplit 1762077601500)"
  let ?a4 = "exec ?tg ?a3 (replicate 50 Tick)"
  let ?s3 = "\<lparr> time = 1500, isRunning = True,
         splits = [\<lparr> id_split = 1762077601500, time_split = ''00:00:01.50'',
                     duration = 1500, lap = ''00:00:01.50'' \<rparr>],
         lastSplitTime = 1500 \<rparr>"
  have r1: "isRunning (cur ?a1)" by (simp only: started) simp
  have c2: "cur ?a2 = \<lparr> time = 1500, isRunning = True, splits = [], lastSplitTime = 0 \<rparr>"
    by (simp only: exec_ticks_cur [OF r1] started) simp
  have k2: "keydown ?a2 = \<lparr> c_time = 0, c_isRunning = True \<rparr>"
    by (simp only: exec_ticks_keydown [OF r1] started)
  have c3: "cur ?a3 = ?s3"
    by (simp only: step_split_fields c2) (simp add: handleSplit_def render_def Let_def labels)
  have k3: "keydown ?a3 = \<lparr> c_time = 0, c_isRunning = True \<rparr>"
    by (simp only: step_split_fields k2)
  have r3: "isRunning (cur ?a3)" by (simp only: c3) simp
  have c4: "cur ?a4 = ?s3\<lparr>time := 2000\<rparr>"
    by (simp only: exec_ticks_cur [OF r3] c3) simp
  have k4: "keydown ?a4 = \<lparr> c_time = 0, c_isRunning = True \<rparr>"
    by (simp only: exec_ticks_keydown [OF r3] k3)
  have "cur (exec ?tg mounted
          ((((ClickStartStop # replicate 150 Tick) @ [ClickSplit 1762077601500])
              @ replicate 50 Tick) @ [KeyS 1762077602000]))
        = handleSplit (keydown ?a4) 1762077602000 (cur ?a4)"
    by (simp only: exec_append exec_Cons exec_Nil step_split_fields)
  also have "\<dots> = \<lparr> time = 2000, isRunning = True,
         splits = [\<lparr> id_split = 1762077601500, time_split = ''00:00:01.50'',
                     duration = 1500, lap = ''00:00:01.50'' \<rparr>,
                   \<lparr> id_split = 1762077602000, time_split = ''00:00:00.00'',
                     duration = - 1500, lap = ''-1:-1:-2.-50'' \<rparr>],
         lastSplitTime = 0 \<rparr>"
    by (simp only: c4 k4) (simp add: handleSplit_def Let_def labels)
  finally show ?thesis .
qed

text \<open>Splits whose clock readings differ have different identities.\<close>

lemma readings_snoc:
  "readings (evs @ [e]) = readings evs @ (case e of ClickSplit now \<Rightarrow> [now] | KeyS now \<Rightarrow> [now] | _ \<Rightarrow> [])"
  by (simp add: readings_def)

lemma step_ids_distinct:
  assumes "distinct (ids @ (case e of ClickSplit now \<Rightarrow> [now] | KeyS now \<Rightarrow> [now] | _ \<Rightarrow> []))"
    and "set (map id_split (splits (cur a))) \<subseteq> set ids"
    and "distinct (map id_split (splits (cur a)))"
  shows "set (map id_split (splits (cur (step target a e))))
           \<subseteq> set (ids @ (case e of ClickSplit now \<Rightarrow> [now] | KeyS now \<Rightarrow> [now] | _ \<Rightarrow> []))
       \<and> distinct (map id_split (splits (cur (step target a e))))"
  using assms
  by (cases e)
    (auto simp add: commit_def tick_def Let_def handleStartStop_def handleReset_def handleSplit_def)

lemma distinct_readings_distinct_ids:
  assumes "distinct (readings evs)"
  shows "set (map id_split (splits (cur (exec target mounted evs)))) \<subseteq> set (readings evs)
       \<and> distinct (map id_split (splits (cur (exec target mounted evs))))"
  using assms
proof (induction evs rule: rev_induct)
  case Nil
  show ?case by (simp add: exec_Nil mounted_def Let_def)
next
  case (snoc e evs)
  from snoc.prems have d: "distinct (readings evs)" by (simp add: readings_snoc)
  from snoc.IH [OF d] snoc.prems show ?case
    by (simp only: exec_snoc readings_snoc) (intro step_ids_distinct, simp_all)
qed

text \<open>
  Claim C8. The identity of a split is the reading of the wall clock in milliseconds. Two
  splits whose handlers read the same millisecond carry the same identity: the identities
  of the recorded splits are then not distinct. (Readings that differ do give identities
  that differ: \<open>distinct_readings_distinct_ids\<close>.)
\<close>

theorem split_ids_collide:
  "map id_split (splits (cur (exec \<lparr> hours = ''00'', minutes = ''00'', seconds = ''00'' \<rparr> mounted
      [ClickStartStop, Tick, ClickSplit 1762077600010, ClickSplit 1762077600010])))
     = [1762077600010, 1762077600010]
   \<and> \<not> distinct (map id_split (splits (cur (exec \<lparr> hours = ''00'', minutes = ''00'', seconds = ''00'' \<rparr> mounted
      [ClickStartStop, Tick, ClickSplit 1762077600010, ClickSplit 1762077600010]))))"
proof -
  have "map id_split (splits (cur (exec \<lparr> hours = ''00'', minutes = ''00'', seconds = ''00'' \<rparr> mounted
      [ClickStartStop, Tick, ClickSplit 1762077600010, ClickSplit 1762077600010])))
     = [1762077600010, 1762077600010]"
    by (simp add: exec_def mounted_def Let_def commit_def render_def tick_def handleStartStop_def
        handleSplit_def)
  then show ?thesis by simp
qed

end
